theory Spec2Isabelle
  imports Complex_Main
begin

section \<open>The Lebwohl-Lasher kernel of \<^verbatim>\<open>cython_LebwohlLasher.pyx\<close>\<close>

text \<open>
  The lattice is a square array of angles. The source holds it in a two-dimensional
  memoryview of C doubles; here it is a list of rows of reals, so all arithmetic on
  angles and energies is exact. The C \<^verbatim>\<open>int\<close> variables of the source are
  integers, and the places where the source computes with them are checked against the
  32-bit range of a C \<^verbatim>\<open>int\<close>, the narrowest type those results can have: leaving
  the range is undefined in C and is the value \<open>Overflow\<close> here.
  Every exception the source can raise is a value of \<open>error\<close>.
\<close>

datatype error = ZeroDivisionError | IndexError | ValueError | Overflow

type_synonym lattice = "real list list"

definition bind_err :: "error + 'a \<Rightarrow> ('a \<Rightarrow> error + 'b) \<Rightarrow> error + 'b" where
  "bind_err m f = (case m of Inl e \<Rightarrow> Inl e | Inr v \<Rightarrow> f v)"

definition c_int :: "int \<Rightarrow> error + int" where
  \<comment> \<open>the result of an arithmetic operation on C ints\<close>
  "c_int v = (if - (2 ^ 31) \<le> v \<and> v < 2 ^ 31 then Inr v else Inl Overflow)"

definition py_mod :: "int \<Rightarrow> int \<Rightarrow> error + int" where
  \<comment> \<open>\<^verbatim>\<open>%\<close> on C ints under Cython's default \<^verbatim>\<open>cdivision=False\<close>: Python's
      remainder, whose sign follows the divisor, and an exception on a zero divisor\<close>
  "py_mod a b = (if b = 0 then Inl ZeroDivisionError else Inr (a mod b))"

definition idx :: "'a list \<Rightarrow> int \<Rightarrow> error + 'a" where
  \<comment> \<open>one index of a memoryview under the defaults \<^verbatim>\<open>boundscheck=True\<close> and
      \<^verbatim>\<open>wraparound=True\<close>: a negative index counts from the end\<close>
  "idx xs i =
     (let n = int (length xs); k = (if i < 0 then i + n else i)
      in if 0 \<le> k \<and> k < n then Inr (xs ! nat k) else Inl IndexError)"

definition get_at :: "lattice \<Rightarrow> int \<Rightarrow> int \<Rightarrow> error + real" where
  \<comment> \<open>the read \<^verbatim>\<open>arr[i, j]\<close>\<close>
  "get_at arr i j = bind_err (idx arr i) (\<lambda>row. idx row j)"

definition set_at :: "lattice \<Rightarrow> int \<Rightarrow> int \<Rightarrow> real \<Rightarrow> error + lattice" where
  \<comment> \<open>the write \<^verbatim>\<open>arr[i, j] = v\<close>, returning the updated lattice\<close>
  "set_at arr i j v =
     (let n = int (length arr); k = (if i < 0 then i + n else i)
      in if 0 \<le> k \<and> k < n then
           (let row = arr ! nat k; m = int (length row); l = (if j < 0 then j + m else j)
            in if 0 \<le> l \<and> l < m then Inr (arr[nat k := row[nat l := v]])
               else Inl IndexError)
         else Inl IndexError)"

definition shape :: "lattice \<Rightarrow> int \<Rightarrow> bool" where
  \<comment> \<open>\<open>arr\<close> is an \<open>n\<close> by \<open>n\<close> array\<close>
  "shape arr n = (int (length arr) = n \<and> list_all (\<lambda>row. int (length row) = n) arr)"

definition covers :: "lattice \<Rightarrow> int \<Rightarrow> bool" where
  \<comment> \<open>\<open>arr\<close> has at least \<open>n\<close> rows and at least \<open>n\<close> entries in every row\<close>
  "covers arr n = (n \<le> int (length arr) \<and> list_all (\<lambda>row. n \<le> int (length row)) arr)"

definition py_range :: "int \<Rightarrow> int list" where
  "py_range n = [0..n - 1]"

fun for_each :: "'i list \<Rightarrow> ('s \<Rightarrow> 'i \<Rightarrow> error + 's) \<Rightarrow> 's \<Rightarrow> error + 's" where
  \<comment> \<open>a \<^verbatim>\<open>for\<close> loop over \<open>xs\<close> threading the state \<open>s\<close>; an exception in the
      body ends the loop\<close>
  "for_each [] body s = Inr s"
| "for_each (x # xs) body s = bind_err (body s x) (for_each xs body)"

subsection \<open>\<^verbatim>\<open>initdat\<close>\<close>

definition random_sample :: "(nat \<Rightarrow> real) \<Rightarrow> int \<Rightarrow> error + lattice" where
  \<comment> \<open>\<^verbatim>\<open>np.random.random_sample((nmax, nmax))\<close>: the array is filled in row-major order
      from the stream \<open>rs\<close> of uniform draws; a negative dimension is refused\<close>
  "random_sample rs nmax =
     (if nmax < 0 then Inl ValueError
      else Inr (map (\<lambda>i. map (\<lambda>j. rs (i * nat nmax + j)) [0..<nat nmax]) [0..<nat nmax]))"

definition initdat :: "(nat \<Rightarrow> real) \<Rightarrow> int \<Rightarrow> real \<Rightarrow> error + lattice" where
  "initdat rs nmax Ts =
     bind_err (random_sample rs nmax) (\<lambda>sample.
     Inr (map (map (\<lambda>u. u * 2 * pi)) sample))"

subsection \<open>\<^verbatim>\<open>one_energy\<close> and \<^verbatim>\<open>all_energy\<close>\<close>

definition wrap_index :: "int \<Rightarrow> int \<Rightarrow> error + int" where
  \<comment> \<open>\<^verbatim>\<open>k % nmax\<close> for a sum or difference \<open>k\<close> of C ints\<close>
  "wrap_index k nmax = bind_err (c_int k) (\<lambda>s. py_mod s nmax)"

definition one_energy :: "lattice \<Rightarrow> int \<Rightarrow> int \<Rightarrow> int \<Rightarrow> error + real" where
  "one_energy arr ix iy nmax =
     (let en = 0 in
      bind_err (wrap_index (ix + 1) nmax) (\<lambda>ixp.
      bind_err (wrap_index (ix - 1) nmax) (\<lambda>ixm.
      bind_err (wrap_index (iy + 1) nmax) (\<lambda>iyp.
      bind_err (wrap_index (iy - 1) nmax) (\<lambda>iym.
      bind_err (get_at arr ix iy) (\<lambda>c. bind_err (get_at arr ixp iy) (\<lambda>nb.
      let ang = c - nb; en = en + 0.5 * (1 - 3 * cos ang ^ 2) in
      bind_err (get_at arr ix iy) (\<lambda>c. bind_err (get_at arr ixm iy) (\<lambda>nb.
      let ang = c - nb; en = en + 0.5 * (1 - 3 * cos ang ^ 2) in
      bind_err (get_at arr ix iy) (\<lambda>c. bind_err (get_at arr ix iyp) (\<lambda>nb.
      let ang = c - nb; en = en + 0.5 * (1 - 3 * cos ang ^ 2) in
      bind_err (get_at arr ix iy) (\<lambda>c. bind_err (get_at arr ix iym) (\<lambda>nb.
      let ang = c - nb; en = en + 0.5 * (1 - 3 * cos ang ^ 2) in
      Inr en)))))))))))))"

definition all_energy :: "lattice \<Rightarrow> int \<Rightarrow> error + real" where
  "all_energy arr nmax =
     for_each (py_range nmax) (\<lambda>enall i.
       for_each (py_range nmax) (\<lambda>enall j.
         bind_err (one_energy arr i j nmax) (\<lambda>e. Inr (enall + e))) enall) 0"

subsection \<open>\<^verbatim>\<open>get_order\<close>\<close>

text \<open>
  The arrays \<^verbatim>\<open>lab\<close> (3 by \<open>nmax\<close> by \<open>nmax\<close>) and \<^verbatim>\<open>Qab\<close> (3 by 3) are
  created by the function with a fixed shape and are only addressed by loop variables
  inside that shape, so they are stores from indices to values, starting at zero as
  \<^verbatim>\<open>np.zeros\<close> leaves them. The reads of \<^verbatim>\<open>cos_arr\<close> and \<^verbatim>\<open>sin_arr\<close>, which
  have the shape of the argument, are checked.
\<close>

type_synonym directors = "nat \<times> int \<times> int \<Rightarrow> real"

type_synonym tensor = "nat \<times> nat \<Rightarrow> real"

definition delta :: tensor where
  \<comment> \<open>\<^verbatim>\<open>np.eye(3)\<close>\<close>
  "delta = (\<lambda>(a, b). if a = b then 1 else 0)"

definition fill_lab :: "lattice \<Rightarrow> int \<Rightarrow> error + directors" where
  "fill_lab arr nmax =
     (if nmax < 0 then Inl ValueError
      else
        let cos_arr = map (map cos) arr; sin_arr = map (map sin) arr in
        for_each (py_range nmax) (\<lambda>lab i.
          for_each (py_range nmax) (\<lambda>lab j.
            bind_err (get_at cos_arr i j) (\<lambda>c.
            let lab = lab((0, i, j) := c) in
            bind_err (get_at sin_arr i j) (\<lambda>s.
            Inr (lab((1, i, j) := s))))) lab) (\<lambda>_. 0))"

definition accumulate_Qab :: "directors \<Rightarrow> int \<Rightarrow> error + tensor" where
  "accumulate_Qab lab nmax =
     for_each [0, 1, 2] (\<lambda>Qab a.
       for_each [0, 1, 2] (\<lambda>Qab b.
         for_each (py_range nmax) (\<lambda>Qab i.
           for_each (py_range nmax) (\<lambda>Qab j.
             Inr (Qab((a, b) := Qab (a, b) + (3 * lab (a, i, j) * lab (b, i, j) - delta (a, b)))))
           Qab) Qab) Qab) (\<lambda>_. 0)"

definition normalise_Qab :: "tensor \<Rightarrow> int \<Rightarrow> error + tensor" where
  "normalise_Qab Qab nmax =
     bind_err (c_int (2 * nmax)) (\<lambda>t. bind_err (c_int (t * nmax)) (\<lambda>t.
     let tmp = real_of_int t in
     for_each [0, 1, 2] (\<lambda>Qab a.
       for_each [0, 1, 2] (\<lambda>Qab b.
         if tmp = 0 then Inl ZeroDivisionError
         else Inr (Qab((a, b) := Qab (a, b) / tmp))) Qab) Qab))"

definition order_tensor :: "lattice \<Rightarrow> int \<Rightarrow> error + tensor" where
  \<comment> \<open>the matrix \<^verbatim>\<open>Qab\<close> that \<^verbatim>\<open>get_order\<close> hands to the eigenvalue solver\<close>
  "order_tensor arr nmax =
     bind_err (fill_lab arr nmax) (\<lambda>lab.
     bind_err (accumulate_Qab lab nmax) (\<lambda>Qab.
     normalise_Qab Qab nmax))"

definition Qab_entry :: "lattice \<Rightarrow> int \<Rightarrow> nat \<Rightarrow> nat \<Rightarrow> error + real" where
  \<comment> \<open>the entry \<^verbatim>\<open>Qab[a, b]\<close> of that matrix\<close>
  "Qab_entry arr nmax a b = bind_err (order_tensor arr nmax) (\<lambda>Qab. Inr (Qab (a, b)))"

definition get_order :: "(tensor \<Rightarrow> real list) \<Rightarrow> lattice \<Rightarrow> int \<Rightarrow> error + real" where
  \<comment> \<open>\<open>eigvalsh\<close> stands for \<^verbatim>\<open>np.linalg.eigvalsh\<close>, which is not part of the program\<close>
  "get_order eigvalsh arr nmax =
     bind_err (order_tensor arr nmax) (\<lambda>Qab.
     let eigenvalues = eigvalsh Qab in idx eigenvalues 2)"

text \<open>
  What the library documents of \<^verbatim>\<open>np.linalg.eigvalsh\<close>: it reads the lower triangle of
  its argument and returns the eigenvalues of that symmetric matrix in ascending order,
  each repeated according to its multiplicity. Three reals are the eigenvalues with
  multiplicity exactly when their elementary symmetric functions are the coefficients of
  the characteristic polynomial: the trace, the sum of the principal minors of order two,
  and the determinant.
\<close>

definition trace3 :: "tensor \<Rightarrow> real" where
  "trace3 Q = Q (0, 0) + Q (1, 1) + Q (2, 2)"

definition minors3 :: "tensor \<Rightarrow> real" where
  "minors3 Q =
     (Q (0, 0) * Q (1, 1) - Q (1, 0) * Q (1, 0))
     + (Q (0, 0) * Q (2, 2) - Q (2, 0) * Q (2, 0))
     + (Q (1, 1) * Q (2, 2) - Q (2, 1) * Q (2, 1))"

definition det3 :: "tensor \<Rightarrow> real" where
  "det3 Q =
     Q (0, 0) * (Q (1, 1) * Q (2, 2) - Q (2, 1) * Q (2, 1))
     - Q (1, 0) * (Q (1, 0) * Q (2, 2) - Q (2, 1) * Q (2, 0))
     + Q (2, 0) * (Q (1, 0) * Q (2, 1) - Q (1, 1) * Q (2, 0))"

definition ascending_spectrum :: "tensor \<Rightarrow> real list \<Rightarrow> bool" where
  "ascending_spectrum Q es =
     (case es of
        [e0, e1, e2] \<Rightarrow>
          e0 \<le> e1 \<and> e1 \<le> e2
          \<and> e0 + e1 + e2 = trace3 Q
          \<and> e0 * e1 + e0 * e2 + e1 * e2 = minors3 Q
          \<and> e0 * e1 * e2 = det3 Q
      | _ \<Rightarrow> False)"

definition solver_ok :: "(tensor \<Rightarrow> real list) \<Rightarrow> lattice \<Rightarrow> int \<Rightarrow> bool" where
  \<comment> \<open>the solver answers as documented on the matrix that \<^verbatim>\<open>get_order\<close> hands it\<close>
  "solver_ok eigvalsh arr nmax =
     (case order_tensor arr nmax of
        Inl _ \<Rightarrow> True
      | Inr Qab \<Rightarrow> ascending_spectrum Qab (eigvalsh Qab))"


subsection \<open>\<^verbatim>\<open>MC_step\<close>\<close>

text \<open>
  The random numbers the function draws are an argument: \<open>xran r i j\<close> and \<open>yran r i j\<close>
  are the entries \<^verbatim>\<open>[i, j]\<close> of the integer arrays drawn in iteration \<open>(i, j)\<close> (the
  other entries of those arrays are never read), \<open>gauss r i j\<close> is the standard normal
  deviate behind \<^verbatim>\<open>aran[i, j]\<close>, which \<^verbatim>\<open>np.random.normal\<close> multiplies by
  \<^verbatim>\<open>scale\<close>, and \<open>uniform r i\<close> is the value of \<^verbatim>\<open>np.random.uniform(0.0, 1.0)\<close>
  in iteration \<open>i\<close> of the outer loop.

  In the source the \<^verbatim>\<open>else:\<close> that holds the Boltzmann test stands at the depth of
  \<^verbatim>\<open>for j\<close>, not of \<^verbatim>\<open>if en1<=en0\<close>: it is the else clause of the inner loop, which
  runs once for each \<open>i\<close>, after the inner loop has ended, on the values that the last
  pass of the inner loop left in \<^verbatim>\<open>ix\<close>, \<^verbatim>\<open>iy\<close>, \<^verbatim>\<open>ang\<close>, \<^verbatim>\<open>en0\<close> and
  \<^verbatim>\<open>en1\<close>. The model follows the source. The final \<^verbatim>\<open>return\<close> stands at column 0 in
  the source; it is taken as the last statement of the function, as its docstring says.
\<close>

record rng =
  xran :: "int \<Rightarrow> int \<Rightarrow> int"
  yran :: "int \<Rightarrow> int \<Rightarrow> int"
  gauss :: "int \<Rightarrow> int \<Rightarrow> real"
  uniform :: "int \<Rightarrow> real"

record mc_state =
  m_arr :: lattice
  m_accept :: int
  m_ix :: int
  m_iy :: int
  m_ang :: real
  m_en0 :: real
  m_en1 :: real

definition attempt :: "rng \<Rightarrow> real \<Rightarrow> int \<Rightarrow> int \<Rightarrow> mc_state \<Rightarrow> int \<Rightarrow> error + mc_state" where
  \<comment> \<open>the body of the inner loop, lines 265 to 276; a negative \<^verbatim>\<open>scale\<close> is refused
      by \<^verbatim>\<open>np.random.normal\<close>\<close>
  "attempt r scale nmax i s j =
     (if scale < 0 then Inl ValueError
      else
        let ix = xran r i j; iy = yran r i j; ang = scale * gauss r i j in
        bind_err (one_energy (m_arr s) ix iy nmax) (\<lambda>en0.
        bind_err (get_at (m_arr s) ix iy) (\<lambda>v.
        bind_err (set_at (m_arr s) ix iy (v + ang)) (\<lambda>arr1.
        bind_err (one_energy arr1 ix iy nmax) (\<lambda>en1.
        Inr \<lparr>m_arr = arr1,
             m_accept = (if en1 \<le> en0 then m_accept s + 1 else m_accept s),
             m_ix = ix, m_iy = iy, m_ang = ang, m_en0 = en0, m_en1 = en1\<rparr>)))))"

definition loop_else :: "rng \<Rightarrow> real \<Rightarrow> mc_state \<Rightarrow> int \<Rightarrow> error + mc_state" where
  \<comment> \<open>the else clause of the inner loop, lines 277 to 285\<close>
  "loop_else r Ts s i =
     (if Ts = 0 then Inl ZeroDivisionError
      else
        let boltz = exp (- (m_en1 s - m_en0 s) / Ts) in
        if boltz \<ge> uniform r i then Inr (s\<lparr>m_accept := m_accept s + 1\<rparr>)
        else
          bind_err (get_at (m_arr s) (m_ix s) (m_iy s)) (\<lambda>v.
          bind_err (set_at (m_arr s) (m_ix s) (m_iy s) (v - m_ang s)) (\<lambda>arr1.
          Inr (s\<lparr>m_arr := arr1\<rparr>))))"

definition MC_step :: "lattice \<Rightarrow> real \<Rightarrow> int \<Rightarrow> rng \<Rightarrow> error + lattice \<times> real" where
  \<comment> \<open>returns the lattice as the sweep leaves it together with the returned ratio\<close>
  "MC_step arr Ts nmax r =
     (let scale = 0.1 + Ts;
          s0 = \<lparr>m_arr = arr, m_accept = 0, m_ix = 0, m_iy = 0,
                m_ang = 0, m_en0 = 0, m_en1 = 0\<rparr>
      in
      bind_err
        (for_each (py_range nmax) (\<lambda>s i.
           bind_err (for_each (py_range nmax) (attempt r scale nmax i) s)
             (\<lambda>s. loop_else r Ts s i)) s0) (\<lambda>s.
      bind_err (c_int (nmax * nmax)) (\<lambda>d.
      if d = 0 then Inl ZeroDivisionError
      else Inr (m_arr s, real_of_int (m_accept s) / real_of_int d))))"

text \<open>Two streams of draws, used below to run a sweep on a small lattice.\<close>

definition single_cell_draws :: rng where
  "single_cell_draws =
     \<lparr>xran = (\<lambda>i j. 0), yran = (\<lambda>i j. 0), gauss = (\<lambda>i j. 1), uniform = (\<lambda>i. 1 / 2)\<rparr>"

definition uphill_draws :: rng where
  "uphill_draws =
     \<lparr>xran = (\<lambda>i j. if i = 0 \<and> j = 0 then 0 else 1),
      yran = (\<lambda>i j. if i = 0 \<and> j = 0 then 0 else 1),
      gauss = (\<lambda>i j. if i = 0 \<and> j = 0 then pi / 2 else 0),
      uniform = (\<lambda>i. 1 / 2)\<rparr>"

subsection \<open>The energy functional as the specification words it\<close>

definition theta :: "lattice \<Rightarrow> int \<Rightarrow> int \<Rightarrow> real" where
  \<comment> \<open>the angle of the cell \<open>(i, j)\<close> of the lattice\<close>
  "theta arr i j = arr ! nat i ! nat j"

definition neighbors :: "int \<Rightarrow> int \<Rightarrow> int \<Rightarrow> (int \<times> int) list" where
  \<comment> \<open>the four periodic neighbours \<open>(i \<plusminus> 1 mod N, j)\<close> and \<open>(i, j \<plusminus> 1 mod N)\<close>\<close>
  "neighbors i j n =
     [((i + 1) mod n, j), ((i - 1) mod n, j), (i, (j + 1) mod n), (i, (j - 1) mod n)]"

definition cellEnergy :: "lattice \<Rightarrow> int \<Rightarrow> int \<Rightarrow> int \<Rightarrow> real" where
  "cellEnergy arr i j n =
     sum_list (map (\<lambda>(ip, jp). 0.5 * (1 - 3 * cos (theta arr i j - theta arr ip jp) ^ 2))
       (neighbors i j n))"

definition latticeEnergy :: "lattice \<Rightarrow> int \<Rightarrow> real" where
  "latticeEnergy arr n = (\<Sum>i \<in> {0..n - 1}. \<Sum>j \<in> {0..n - 1}. cellEnergy arr i j n)"

definition aligned :: "lattice \<Rightarrow> bool" where
  \<comment> \<open>all angles of the lattice are equal\<close>
  "aligned arr =
     (case concat arr of
        [] \<Rightarrow> True
      | t # _ \<Rightarrow> list_all (list_all (\<lambda>x. x = t)) arr)"

definition shift_angle :: "lattice \<Rightarrow> int \<Rightarrow> int \<Rightarrow> real \<Rightarrow> lattice" where
  \<comment> \<open>the lattice with \<open>d\<close> added to the angle of the single cell \<open>(k, l)\<close>\<close>
  "shift_angle arr k l d = arr[nat k := (arr ! nat k)[nat l := theta arr k l + d]]"

definition negate_angles :: "lattice \<Rightarrow> lattice" where
  "negate_angles arr = map (map uminus) arr"


subsection \<open>The order tensor as the specification words it\<close>

definition director :: "lattice \<Rightarrow> int \<Rightarrow> int \<Rightarrow> nat \<Rightarrow> real" where
  \<comment> \<open>the components \<open>(cos \<theta>, sin \<theta>, 0)\<close> of the director of the cell \<open>(i, j)\<close>\<close>
  "director arr i j a =
     (if a = 0 then cos (theta arr i j) else if a = 1 then sin (theta arr i j) else 0)"

definition cell_sum :: "int \<Rightarrow> (int \<Rightarrow> int \<Rightarrow> real) \<Rightarrow> real" where
  \<comment> \<open>a sum over all cells of the lattice\<close>
  "cell_sum n f = (\<Sum>i \<in> {0..n - 1}. \<Sum>j \<in> {0..n - 1}. f i j)"

definition Q_spec :: "lattice \<Rightarrow> int \<Rightarrow> nat \<Rightarrow> nat \<Rightarrow> real" where
  "Q_spec arr n a b =
     cell_sum n (\<lambda>i j. 3 * director arr i j a * director arr i j b - (if a = b then 1 else 0))
     / (2 * real_of_int n ^ 2)"

definition lab_upto :: "lattice \<Rightarrow> int \<Rightarrow> int set \<Rightarrow> int \<Rightarrow> int set \<Rightarrow> directors" where
  \<comment> \<open>the array \<^verbatim>\<open>lab\<close> once the rows in \<open>D\<close> and the cells \<open>E\<close> of row \<open>i\<close> are filled\<close>
  "lab_upto arr n D i E = (\<lambda>(a, i', j).
     if a < 2 \<and> (i' \<in> D \<and> 0 \<le> j \<and> j < n \<or> i' = i \<and> j \<in> E) then director arr i' j a else 0)"

section \<open>Reads, loops and the energy of a cell\<close>

lemma bind_err_Inr: "bind_err (Inr v) f = f v"
  by (simp add: bind_err_def)

lemma idx_in_range:
  "0 \<le> i \<Longrightarrow> i < int (length xs) \<Longrightarrow> idx xs i = Inr (xs ! nat i)"
  by (simp add: idx_def Let_def)

lemma shape_row:
  "shape arr n \<Longrightarrow> 0 \<le> i \<Longrightarrow> i < n \<Longrightarrow> int (length (arr ! nat i)) = n"
  by (auto simp: shape_def list_all_length)

lemma get_at_in_range:
  assumes "shape arr n" "0 \<le> i" "i < n" "0 \<le> j" "j < n"
  shows "get_at arr i j = Inr (theta arr i j)"
proof -
  have "idx arr i = Inr (arr ! nat i)"
    using assms by (simp add: idx_in_range shape_def)
  moreover have "idx (arr ! nat i) j = Inr (arr ! nat i ! nat j)"
    using assms shape_row [OF assms(1-3)] by (simp add: idx_in_range)
  ultimately show ?thesis
    by (simp add: get_at_def bind_err_Inr theta_def)
qed

lemma wrap_index_in_range:
  assumes "0 < nmax" "- (2 ^ 31) \<le> k" "k < 2 ^ 31"
  shows "wrap_index k nmax = Inr (k mod nmax)"
  using assms by (simp add: wrap_index_def c_int_def py_mod_def bind_err_Inr)

lemma one_energy_valid:
  assumes "0 < nmax" "nmax < 2 ^ 31" "shape arr nmax"
    and "0 \<le> ix" "ix < nmax" "0 \<le> iy" "iy < nmax"
  shows "one_energy arr ix iy nmax = Inr (cellEnergy arr ix iy nmax)"
proof -
  have w: "wrap_index (ix + 1) nmax = Inr ((ix + 1) mod nmax)"
    "wrap_index (ix - 1) nmax = Inr ((ix - 1) mod nmax)"
    "wrap_index (iy + 1) nmax = Inr ((iy + 1) mod nmax)"
    "wrap_index (iy - 1) nmax = Inr ((iy - 1) mod nmax)"
    using assms by (simp_all add: wrap_index_in_range)
  have r: "0 \<le> k mod nmax" "k mod nmax < nmax" for k
    using assms(1) by simp_all
  have g: "get_at arr ix iy = Inr (theta arr ix iy)"
    "get_at arr ((ix + 1) mod nmax) iy = Inr (theta arr ((ix + 1) mod nmax) iy)"
    "get_at arr ((ix - 1) mod nmax) iy = Inr (theta arr ((ix - 1) mod nmax) iy)"
    "get_at arr ix ((iy + 1) mod nmax) = Inr (theta arr ix ((iy + 1) mod nmax))"
    "get_at arr ix ((iy - 1) mod nmax) = Inr (theta arr ix ((iy - 1) mod nmax))"
    using assms r by (simp_all add: get_at_in_range)
  show ?thesis
    by (simp add: one_energy_def w g bind_err_Inr cellEnergy_def neighbors_def Let_def)
qed

lemma shape_covers: "shape arr n \<Longrightarrow> covers arr n"
  by (simp add: shape_def covers_def list_all_length)

lemma get_at_covered:
  assumes "covers arr n" "0 \<le> i" "i < n" "0 \<le> j" "j < n"
  shows "get_at arr i j = Inr (theta arr i j)"
proof -
  have l: "nat i < length arr"
    using assms by (auto simp: covers_def)
  then have "n \<le> int (length (arr ! nat i))"
    using assms(1) by (simp add: covers_def list_all_length)
  then have "idx (arr ! nat i) j = Inr (arr ! nat i ! nat j)"
    using assms by (simp add: idx_in_range)
  moreover have "idx arr i = Inr (arr ! nat i)"
    using assms l by (simp add: idx_in_range)
  ultimately show ?thesis
    by (simp add: get_at_def bind_err_Inr theta_def)
qed

lemma one_energy_covered:
  assumes "0 < nmax" "nmax < 2 ^ 31" "covers arr nmax"
    and "0 \<le> ix" "ix < nmax" "0 \<le> iy" "iy < nmax"
  shows "one_energy arr ix iy nmax = Inr (cellEnergy arr ix iy nmax)"
proof -
  have w: "wrap_index (ix + 1) nmax = Inr ((ix + 1) mod nmax)"
    "wrap_index (ix - 1) nmax = Inr ((ix - 1) mod nmax)"
    "wrap_index (iy + 1) nmax = Inr ((iy + 1) mod nmax)"
    "wrap_index (iy - 1) nmax = Inr ((iy - 1) mod nmax)"
    using assms by (simp_all add: wrap_index_in_range)
  have r: "0 \<le> k mod nmax" "k mod nmax < nmax" for k
    using assms(1) by simp_all
  have g: "get_at arr ix iy = Inr (theta arr ix iy)"
    "get_at arr ((ix + 1) mod nmax) iy = Inr (theta arr ((ix + 1) mod nmax) iy)"
    "get_at arr ((ix - 1) mod nmax) iy = Inr (theta arr ((ix - 1) mod nmax) iy)"
    "get_at arr ix ((iy + 1) mod nmax) = Inr (theta arr ix ((iy + 1) mod nmax))"
    "get_at arr ix ((iy - 1) mod nmax) = Inr (theta arr ix ((iy - 1) mod nmax))"
    using assms r by (simp_all add: get_at_covered)
  show ?thesis
    by (simp add: one_energy_def w g bind_err_Inr cellEnergy_def neighbors_def Let_def)
qed

lemma for_each_sum:
  assumes "\<And>s x. x \<in> set xs \<Longrightarrow> body s x = Inr (s + f x)"
  shows "for_each xs body s = Inr (s + sum_list (map f xs))"
  using assms
proof (induction xs arbitrary: s)
  case Nil
  then show ?case by simp
next
  case (Cons x xs)
  have "body s x = Inr (s + f x)"
    using Cons.prems by simp
  moreover have "for_each xs body (s + f x) = Inr (s + f x + sum_list (map f xs))"
    using Cons.IH Cons.prems by simp
  ultimately show ?case
    by (simp add: bind_err_Inr add.assoc)
qed

lemma sum_list_py_range: "sum_list (map f (py_range n)) = sum f {0..n - 1}"
  by (simp add: py_range_def sum_set_upto_conv_sum_list_int [symmetric])

lemma all_energy_valid:
  assumes "0 < nmax" "nmax < 2 ^ 31" "shape arr nmax"
  shows "all_energy arr nmax = Inr (latticeEnergy arr nmax)"
proof -
  have inner: "for_each (py_range nmax)
        (\<lambda>enall j. bind_err (one_energy arr i j nmax) (\<lambda>e. Inr (enall + e))) s
      = Inr (s + (\<Sum>j \<in> {0..nmax - 1}. cellEnergy arr i j nmax))"
    if "i \<in> set (py_range nmax)" for i s
  proof -
    have "for_each (py_range nmax)
        (\<lambda>enall j. bind_err (one_energy arr i j nmax) (\<lambda>e. Inr (enall + e))) s
      = Inr (s + sum_list (map (\<lambda>j. cellEnergy arr i j nmax) (py_range nmax)))"
    proof (rule for_each_sum)
      fix s' j assume "j \<in> set (py_range nmax)"
      then have "one_energy arr i j nmax = Inr (cellEnergy arr i j nmax)"
        using that assms by (intro one_energy_valid) (simp_all add: py_range_def)
      then show "bind_err (one_energy arr i j nmax) (\<lambda>e. Inr (s' + e))
          = Inr (s' + cellEnergy arr i j nmax)"
        by (simp add: bind_err_Inr)
    qed
    then show ?thesis by (simp add: sum_list_py_range)
  qed
  have "all_energy arr nmax
      = Inr (0 + sum_list (map (\<lambda>i. \<Sum>j \<in> {0..nmax - 1}. cellEnergy arr i j nmax)
               (py_range nmax)))"
    unfolding all_energy_def
    by (rule for_each_sum) (simp add: inner)
  then show ?thesis
    by (simp add: sum_list_py_range latticeEnergy_def)
qed

lemma aligned_theta:
  assumes "aligned arr" "shape arr n"
  obtains t where "\<And>i j. 0 \<le> i \<Longrightarrow> i < n \<Longrightarrow> 0 \<le> j \<Longrightarrow> j < n \<Longrightarrow> theta arr i j = t"
proof -
  have "\<exists>t. list_all (list_all (\<lambda>x. x = t)) arr"
  proof (cases "concat arr")
    case Nil
    then have "\<forall>row \<in> set arr. row = []"
      by simp
    then have "list_all (list_all (\<lambda>x. x = 0)) arr"
      by (fastforce simp: list_all_iff)
    then show ?thesis ..
  next
    case (Cons t ts)
    then show ?thesis
      using assms(1) by (auto simp: aligned_def)
  qed
  then obtain t where t: "list_all (list_all (\<lambda>x. x = t)) arr"
    by blast
  have "theta arr i j = t" if "0 \<le> i" "i < n" "0 \<le> j" "j < n" for i j
  proof -
    have "nat i < length arr" using that assms(2) by (auto simp: shape_def)
    moreover have "nat j < length (arr ! nat i)"
      using that shape_row [OF assms(2) that(1,2)] by auto
    ultimately show ?thesis
      using t by (simp add: list_all_length theta_def)
  qed
  then show ?thesis using that by blast
qed

lemma cellEnergy_aligned:
  assumes "aligned arr" "shape arr n" "0 < n" "0 \<le> i" "i < n" "0 \<le> j" "j < n"
  shows "cellEnergy arr i j n = - 4"
proof -
  obtain t where t: "\<And>i j. 0 \<le> i \<Longrightarrow> i < n \<Longrightarrow> 0 \<le> j \<Longrightarrow> j < n \<Longrightarrow> theta arr i j = t"
    using aligned_theta [OF assms(1,2)] by blast
  have r: "0 \<le> k mod n" "k mod n < n" for k
    using assms(3) by simp_all
  show ?thesis
    using assms by (simp add: cellEnergy_def neighbors_def t r)
qed

lemma latticeEnergy_aligned:
  assumes "aligned arr" "shape arr n" "0 < n"
  shows "latticeEnergy arr n = - 4 * (real_of_int n) ^ 2"
proof -
  have "latticeEnergy arr n = (\<Sum>i \<in> {0..n - 1}. \<Sum>j \<in> {0..n - 1}. (- 4 :: real))"
    unfolding latticeEnergy_def
    using assms by (intro sum.cong refl cellEnergy_aligned) auto
  also have "\<dots> = - 4 * (real_of_int n) ^ 2"
    using assms(3) by (simp add: power2_eq_square)
  finally show ?thesis .
qed


section \<open>The order tensor\<close>

lemma for_each_progress:
  assumes "I pre s"
    and "\<And>done x s. I done s \<Longrightarrow> x \<in> set xs \<Longrightarrow> \<exists>s'. body s x = Inr s' \<and> I (done @ [x]) s'"
  shows "\<exists>s'. for_each xs body s = Inr s' \<and> I (pre @ xs) s'"
  using assms
proof (induction xs arbitrary: pre s)
  case Nil
  then show ?case by simp
next
  case (Cons x xs)
  obtain s1 where s1: "body s x = Inr s1" "I (pre @ [x]) s1"
    using Cons.prems by fastforce
  have "\<exists>s'. for_each xs body s1 = Inr s' \<and> I ((pre @ [x]) @ xs) s'"
    by (rule Cons.IH [OF s1(2)]) (use Cons.prems(2) in simp)
  then show ?case
    using s1 by (simp add: bind_err_Inr)
qed

lemma for_each_add_at:
  assumes "\<And>s x. x \<in> set xs \<Longrightarrow> body s x = Inr (s(k := s k + f x))"
  shows "for_each xs body s = Inr (s(k := s k + sum_list (map f xs)))"
  using assms
proof (induction xs arbitrary: s)
  case Nil
  then show ?case by simp
next
  case (Cons x xs)
  have "body s x = Inr (s(k := s k + f x))"
    by (rule Cons.prems) simp
  moreover have "for_each xs body (s(k := s k + f x))
      = Inr ((s(k := s k + f x))(k := (s(k := s k + f x)) k + sum_list (map f xs)))"
    by (rule Cons.IH) (simp add: Cons.prems)
  ultimately show ?case
    by (simp add: bind_err_Inr add.assoc fun_eq_iff)
qed

lemma get_at_map:
  assumes "shape arr n" "0 \<le> i" "i < n" "0 \<le> j" "j < n"
  shows "get_at (map (map f) arr) i j = Inr (f (theta arr i j))"
proof -
  have s: "shape (map (map f) arr) n"
    using assms(1) by (simp add: shape_def list_all_length)
  have "nat i < length arr" using assms by (auto simp: shape_def)
  moreover have "nat j < length (arr ! nat i)"
    using assms shape_row [OF assms(1-3)] by auto
  ultimately have "theta (map (map f) arr) i j = f (theta arr i j)"
    by (simp add: theta_def)
  then show ?thesis
    using get_at_in_range [OF s assms(2-5)] by simp
qed

lemma fill_lab_valid:
  assumes "0 \<le> n" "shape arr n"
  shows "fill_lab arr n = Inr (lab_upto arr n {0..n - 1} 0 {})"
proof -
  let ?inner = "\<lambda>i lab j. bind_err (get_at (map (map cos) arr) i j) (\<lambda>c.
            let lab = lab((0, i, j) := c) in
            bind_err (get_at (map (map sin) arr) i j) (\<lambda>s.
            Inr (lab((1::nat, i, j) := s))))"
  have step: "?inner i (lab_upto arr n D i E) j = Inr (lab_upto arr n D i (insert j E))"
    if "0 \<le> i" "i < n" "0 \<le> j" "j < n" for i j D E
    using that assms
    by (auto simp: get_at_map bind_err_Inr Let_def lab_upto_def director_def fun_eq_iff)
  have inner: "for_each (py_range n) (?inner i) (lab_upto arr n D i {})
      = Inr (lab_upto arr n (insert i D) 0 {})" if "0 \<le> i" "i < n" for i D
  proof -
    have "\<exists>s'. for_each (py_range n) (?inner i) (lab_upto arr n D i {}) = Inr s'
        \<and> s' = lab_upto arr n D i (set ([] @ py_range n))"
    proof (rule for_each_progress [where I = "\<lambda>done s. s = lab_upto arr n D i (set done)"])
      show "lab_upto arr n D i {} = lab_upto arr n D i (set [])" by simp
    next
      fix dn x s
      assume "s = lab_upto arr n D i (set dn)" "x \<in> set (py_range n)"
      then show "\<exists>s'. ?inner i s x = Inr s' \<and> s' = lab_upto arr n D i (set (dn @ [x]))"
        using step [of i x D "set dn"] that by (simp add: py_range_def)
    qed
    moreover have "lab_upto arr n D i {0..n - 1} = lab_upto arr n (insert i D) 0 {}"
      by (auto simp: lab_upto_def fun_eq_iff)
    ultimately show ?thesis
      by (simp add: py_range_def)
  qed
  have z: "lab_upto arr n D i {} = lab_upto arr n D 0 {}" for D i
    by (auto simp: lab_upto_def fun_eq_iff)
  have "\<exists>s'. for_each (py_range n) (\<lambda>lab i. for_each (py_range n) (?inner i) lab)
          (lab_upto arr n {} 0 {}) = Inr s'
      \<and> s' = lab_upto arr n (set ([] @ py_range n)) 0 {}"
  proof (rule for_each_progress [where I = "\<lambda>done s. s = lab_upto arr n (set done) 0 {}"])
    show "lab_upto arr n {} 0 {} = lab_upto arr n (set []) 0 {}" by simp
  next
    fix dn x s
    assume "s = lab_upto arr n (set dn) 0 {}" "x \<in> set (py_range n)"
    then show "\<exists>s'. for_each (py_range n) (?inner x) s = Inr s'
        \<and> s' = lab_upto arr n (set (dn @ [x])) 0 {}"
      using inner [of x "set dn"] z [of "set dn" x] by (simp add: py_range_def)
  qed
  moreover have "lab_upto arr n {} 0 {} = (\<lambda>_. 0)"
    by (auto simp: lab_upto_def fun_eq_iff)
  ultimately show ?thesis
    using assms(1) by (simp add: fill_lab_def Let_def py_range_def)
qed

lemma accumulate_cells:
  "for_each (py_range n) (\<lambda>Qab i.
       for_each (py_range n) (\<lambda>Qab j. Inr (Qab(k := Qab k + f i j))) Qab) Q
   = Inr (Q(k := Q k + cell_sum n f))"
proof -
  have "for_each (py_range n) (\<lambda>Qab j. Inr (Qab(k := Qab k + f i j))) s
      = Inr (s(k := s k + (\<Sum>j \<in> {0..n - 1}. f i j)))" for i s
    using for_each_add_at [of "py_range n" "\<lambda>Qab j. Inr (Qab(k := Qab k + f i j))" k "f i" s]
    by (simp add: sum_list_py_range)
  then have "for_each (py_range n) (\<lambda>Qab i.
       for_each (py_range n) (\<lambda>Qab j. Inr (Qab(k := Qab k + f i j))) Qab) Q
     = Inr (Q(k := Q k + sum_list (map (\<lambda>i. \<Sum>j \<in> {0..n - 1}. f i j) (py_range n))))"
    by (intro for_each_add_at) simp
  then show ?thesis
    by (simp add: sum_list_py_range cell_sum_def)
qed

lemma three_cases: "a < (3::nat) \<Longrightarrow> a = 0 \<or> a = 1 \<or> a = 2"
  by arith

lemma accumulate_Qab_nine:
  "\<exists>Q. accumulate_Qab lab n = Inr Q
     \<and> Q (0, 0) = cell_sum n (\<lambda>i j. 3 * lab (0, i, j) * lab (0, i, j) - delta (0, 0))
     \<and> Q (0, 1) = cell_sum n (\<lambda>i j. 3 * lab (0, i, j) * lab (1, i, j) - delta (0, 1))
     \<and> Q (0, 2) = cell_sum n (\<lambda>i j. 3 * lab (0, i, j) * lab (2, i, j) - delta (0, 2))
     \<and> Q (1, 0) = cell_sum n (\<lambda>i j. 3 * lab (1, i, j) * lab (0, i, j) - delta (1, 0))
     \<and> Q (1, 1) = cell_sum n (\<lambda>i j. 3 * lab (1, i, j) * lab (1, i, j) - delta (1, 1))
     \<and> Q (1, 2) = cell_sum n (\<lambda>i j. 3 * lab (1, i, j) * lab (2, i, j) - delta (1, 2))
     \<and> Q (2, 0) = cell_sum n (\<lambda>i j. 3 * lab (2, i, j) * lab (0, i, j) - delta (2, 0))
     \<and> Q (2, 1) = cell_sum n (\<lambda>i j. 3 * lab (2, i, j) * lab (1, i, j) - delta (2, 1))
     \<and> Q (2, 2) = cell_sum n (\<lambda>i j. 3 * lab (2, i, j) * lab (2, i, j) - delta (2, 2))"
  unfolding accumulate_Qab_def for_each.simps accumulate_cells bind_err_Inr
  by simp

lemma pairs_below_three:
  assumes "a < (3::nat)" "b < (3::nat)"
    and "P 0 0" "P 0 1" "P 0 2" "P 1 0" "P 1 1" "P 1 2" "P 2 0" "P 2 1" "P 2 2"
  shows "P a b"
  using assms three_cases [of a] three_cases [of b] by auto

lemma accumulate_Qab_entries:
  "\<exists>Q. accumulate_Qab lab n = Inr Q
     \<and> (\<forall>a<3. \<forall>b<3. Q (a, b)
          = cell_sum n (\<lambda>i j. 3 * lab (a, i, j) * lab (b, i, j) - delta (a, b)))"
proof -
  obtain Q where Q: "accumulate_Qab lab n = Inr Q"
    and e: "Q (0, 0) = cell_sum n (\<lambda>i j. 3 * lab (0, i, j) * lab (0, i, j) - delta (0, 0))"
      "Q (0, 1) = cell_sum n (\<lambda>i j. 3 * lab (0, i, j) * lab (1, i, j) - delta (0, 1))"
      "Q (0, 2) = cell_sum n (\<lambda>i j. 3 * lab (0, i, j) * lab (2, i, j) - delta (0, 2))"
      "Q (1, 0) = cell_sum n (\<lambda>i j. 3 * lab (1, i, j) * lab (0, i, j) - delta (1, 0))"
      "Q (1, 1) = cell_sum n (\<lambda>i j. 3 * lab (1, i, j) * lab (1, i, j) - delta (1, 1))"
      "Q (1, 2) = cell_sum n (\<lambda>i j. 3 * lab (1, i, j) * lab (2, i, j) - delta (1, 2))"
      "Q (2, 0) = cell_sum n (\<lambda>i j. 3 * lab (2, i, j) * lab (0, i, j) - delta (2, 0))"
      "Q (2, 1) = cell_sum n (\<lambda>i j. 3 * lab (2, i, j) * lab (1, i, j) - delta (2, 1))"
      "Q (2, 2) = cell_sum n (\<lambda>i j. 3 * lab (2, i, j) * lab (2, i, j) - delta (2, 2))"
    using accumulate_Qab_nine [of lab n] by blast
  have "Q (a, b) = cell_sum n (\<lambda>i j. 3 * lab (a, i, j) * lab (b, i, j) - delta (a, b))"
    if "a < 3" "b < 3" for a b
    using that
    by (rule pairs_below_three
        [where P = "\<lambda>a b. Q (a, b)
           = cell_sum n (\<lambda>i j. 3 * lab (a, i, j) * lab (b, i, j) - delta (a, b))"])
      (rule e)+
  then show ?thesis
    using Q by blast
qed

lemma normalise_Qab_entries:
  assumes "0 < n" "2 * n * n < 2 ^ 31"
  shows "\<exists>Q'. normalise_Qab Q n = Inr Q'
     \<and> (\<forall>a<3. \<forall>b<3. Q' (a, b) = Q (a, b) / (2 * real_of_int n ^ 2))"
proof -
  have "n * 1 \<le> n * n"
    using assms(1) by (intro mult_left_mono) simp_all
  then have "- (2 ^ 31) \<le> 2 * n \<and> 2 * n < 2 ^ 31
      \<and> - (2 ^ 31) \<le> 2 * n * n \<and> 2 * n * n < 2 ^ 31"
    using assms by linarith
  then have c: "c_int (2 * n) = Inr (2 * n)" "c_int (2 * n * n) = Inr (2 * n * n)"
    unfolding c_int_def by simp_all
  define tmp where "tmp = real_of_int (2 * n * n)"
  have nz: "tmp \<noteq> 0"
    using assms(1) by (simp add: tmp_def)
  have e: "tmp = 2 * real_of_int n ^ 2"
    by (simp add: power2_eq_square tmp_def)
  have "\<exists>Q'. normalise_Qab Q n = Inr Q'
      \<and> list_all (\<lambda>(a, b). Q' (a, b) = Q (a, b) / tmp)
           [(0, 0), (0, 1), (0, 2), (1, 0), (1, 1), (1, 2), (2, 0), (2, 1), (2, 2)]"
    unfolding normalise_Qab_def c bind_err_Inr Let_def for_each.simps tmp_def [symmetric]
    using nz by (simp add: bind_err_Inr)
  then obtain Q' where Q': "normalise_Qab Q n = Inr Q'"
    and l: "list_all (\<lambda>(a, b). Q' (a, b) = Q (a, b) / tmp)
           [(0, 0), (0, 1), (0, 2), (1, 0), (1, 1), (1, 2), (2, 0), (2, 1), (2, 2)]"
    by blast
  have "Q' (a, b) = Q (a, b) / tmp" if "a < 3" "b < 3" for a b
    using that
    by (rule pairs_below_three [where P = "\<lambda>a b. Q' (a, b) = Q (a, b) / tmp"])
      (use l in simp_all)
  then show ?thesis
    using Q' e by auto
qed

lemma order_tensor_entries:
  assumes "0 < n" "2 * n * n < 2 ^ 31" "shape arr n"
  shows "\<exists>Q. order_tensor arr n = Inr Q \<and> (\<forall>a<3. \<forall>b<3. Q (a, b) = Q_spec arr n a b)"
proof -
  let ?lab = "lab_upto arr n {0..n - 1} 0 {}"
  have f: "fill_lab arr n = Inr ?lab"
    using assms by (simp add: fill_lab_valid)
  obtain Q1 where Q1: "accumulate_Qab ?lab n = Inr Q1"
    "\<And>a b. a < 3 \<Longrightarrow> b < 3 \<Longrightarrow> Q1 (a, b)
       = cell_sum n (\<lambda>i j. 3 * ?lab (a, i, j) * ?lab (b, i, j) - delta (a, b))"
    using accumulate_Qab_entries [of ?lab n] by blast
  obtain Q2 where Q2: "normalise_Qab Q1 n = Inr Q2"
    "\<And>a b. a < 3 \<Longrightarrow> b < 3 \<Longrightarrow> Q2 (a, b) = Q1 (a, b) / (2 * real_of_int n ^ 2)"
    using normalise_Qab_entries [OF assms(1,2), of Q1] by blast
  have "cell_sum n (\<lambda>i j. 3 * ?lab (a, i, j) * ?lab (b, i, j) - delta (a, b))
      = cell_sum n (\<lambda>i j. 3 * director arr i j a * director arr i j b - (if a = b then 1 else 0))"
    for a b
    unfolding cell_sum_def
    by (intro sum.cong refl) (auto simp: lab_upto_def director_def delta_def)
  then have "Q2 (a, b) = Q_spec arr n a b" if "a < 3" "b < 3" for a b
    using Q1(2) Q2(2) that by (simp add: Q_spec_def)
  then show ?thesis
    by (simp add: order_tensor_def f Q1(1) Q2(1) bind_err_Inr)
qed

section \<open>Symmetries of the cell energy\<close>

lemma shape_shift_angle:
  assumes "shape arr n"
  shows "shape (shift_angle arr k l d) n"
proof -
  have "length ((arr[nat k := (arr ! nat k)[nat l := v]]) ! m) = length (arr ! m)"
    if "m < length arr" for m v
    using that by (cases "m = nat k") simp_all
  then show ?thesis
    using assms by (simp add: shape_def shift_angle_def list_all_length)
qed

lemma neighbors_valid:
  assumes "0 < n" "0 \<le> i" "i < n" "0 \<le> j" "j < n" "(ip, jp) \<in> set (neighbors i j n)"
  shows "0 \<le> ip \<and> ip < n \<and> 0 \<le> jp \<and> jp < n"
  using assms by (auto simp: neighbors_def)

lemma theta_shift_angle:
  assumes "shape arr n" "0 \<le> k" "k < n" "0 \<le> l" "l < n" "0 \<le> p" "p < n" "0 \<le> q" "q < n"
  shows "theta (shift_angle arr k l d) p q
    = theta arr p q + (if p = k \<and> q = l then d else 0)"
proof -
  have "nat k < length arr" "nat p < length arr"
    using assms by (auto simp: shape_def)
  moreover have "nat l < length (arr ! nat k)" "nat q < length (arr ! nat p)"
    using assms shape_row [OF assms(1-3)] shape_row [OF assms(1,6,7)] by auto
  moreover have "nat p = nat k \<longleftrightarrow> p = k" "nat q = nat l \<longleftrightarrow> q = l"
    using assms by auto
  ultimately show ?thesis
    by (auto simp: theta_def shift_angle_def nth_list_update)
qed

lemma shape_negate_angles: "shape arr n \<Longrightarrow> shape (negate_angles arr) n"
  by (simp add: shape_def negate_angles_def list_all_length)

lemma theta_negate_angles:
  assumes "shape arr n" "0 \<le> p" "p < n" "0 \<le> q" "q < n"
  shows "theta (negate_angles arr) p q = - theta arr p q"
proof -
  have "nat p < length arr" using assms by (auto simp: shape_def)
  moreover have "nat q < length (arr ! nat p)"
    using assms shape_row [OF assms(1-3)] by auto
  ultimately show ?thesis
    by (simp add: theta_def negate_angles_def)
qed

lemma cos_shifted:
  "cos ((a + (if P then 2 * pi else 0)) - (b + (if R then 2 * pi else 0))) = cos (a - b)"
proof -
  have "cos (a + 2 * pi - b) = cos (a - b + 2 * pi)" by (simp add: algebra_simps)
  moreover have "cos (a - (b + 2 * pi)) = cos (- (b - a + 2 * pi))"
    by (simp add: algebra_simps)
  moreover have "cos (- (b - a + 2 * pi)) = cos (a - b)"
    unfolding cos_minus cos_periodic by (metis cos_minus minus_diff_eq)
  ultimately show ?thesis by simp
qed

lemma cellEnergy_shift_angle:
  assumes "0 < n" "shape arr n" "0 \<le> i" "i < n" "0 \<le> j" "j < n"
    and "0 \<le> k" "k < n" "0 \<le> l" "l < n"
  shows "cellEnergy (shift_angle arr k l (2 * pi)) i j n = cellEnergy arr i j n"
proof -
  note t = theta_shift_angle [OF assms(2) assms(7-10)]
  have "cos (theta (shift_angle arr k l (2 * pi)) i j - theta (shift_angle arr k l (2 * pi)) ip jp)
      = cos (theta arr i j - theta arr ip jp)"
    if "(ip, jp) \<in> set (neighbors i j n)" for ip jp
  proof -
    have v: "0 \<le> ip \<and> ip < n \<and> 0 \<le> jp \<and> jp < n"
      using neighbors_valid [OF assms(1) assms(3-6) that] .
    show ?thesis
      using v assms by (simp only: t cos_shifted)
  qed
  then show ?thesis
    unfolding cellEnergy_def
    by (intro arg_cong [where f = sum_list] map_cong refl) auto
qed

lemma cellEnergy_negate_angles:
  assumes "0 < n" "shape arr n" "0 \<le> i" "i < n" "0 \<le> j" "j < n"
  shows "cellEnergy (negate_angles arr) i j n = cellEnergy arr i j n"
proof -
  note t = theta_negate_angles [OF assms(2)]
  have c: "cos (- a - - b) = cos (a - b)" for a b :: real
    by (metis cos_minus minus_diff_eq minus_diff_minus)
  have "cos (theta (negate_angles arr) i j - theta (negate_angles arr) ip jp)
      = cos (theta arr i j - theta arr ip jp)"
    if "(ip, jp) \<in> set (neighbors i j n)" for ip jp
  proof -
    have v: "0 \<le> ip \<and> ip < n \<and> 0 \<le> jp \<and> jp < n"
      using neighbors_valid [OF assms(1) assms(3-6) that] .
    show ?thesis
      using v assms by (simp only: t c)
  qed
  then show ?thesis
    unfolding cellEnergy_def
    by (intro arg_cong [where f = sum_list] map_cong refl) auto
qed

section \<open>Sums over the cells\<close>

lemma two_products_le:
  fixes a b c p q :: real
  assumes "c\<^sup>2 \<le> a * b" "0 \<le> a" "0 \<le> b"
  shows "2 * c * (p * q) \<le> a * q\<^sup>2 + b * p\<^sup>2"
proof -
  have "(2 * c * (p * q))\<^sup>2 = 4 * c\<^sup>2 * (p\<^sup>2 * q\<^sup>2)"
    by (simp add: power_mult_distrib)
  also have "\<dots> \<le> 4 * (a * b) * (p\<^sup>2 * q\<^sup>2)"
    using assms(1) by (intro mult_right_mono mult_left_mono) simp_all
  also have "\<dots> = 4 * (a * q\<^sup>2) * (b * p\<^sup>2)"
    by simp
  also have "\<dots> \<le> (a * q\<^sup>2 + b * p\<^sup>2)\<^sup>2"
  proof -
    have "0 \<le> (a * q\<^sup>2 - b * p\<^sup>2)\<^sup>2" by simp
    then show ?thesis by (simp add: power2_eq_square algebra_simps)
  qed
  finally have "(2 * c * (p * q))\<^sup>2 \<le> (a * q\<^sup>2 + b * p\<^sup>2)\<^sup>2" .
  moreover have "0 \<le> a * q\<^sup>2 + b * p\<^sup>2"
    using assms(2,3) by simp
  ultimately show ?thesis
    by (rule power2_le_imp_le)
qed

lemma sum_product_squared_le:
  fixes f g :: "'a \<Rightarrow> real"
  assumes "finite A"
  shows "(\<Sum>x \<in> A. f x * g x)\<^sup>2 \<le> (\<Sum>x \<in> A. (f x)\<^sup>2) * (\<Sum>x \<in> A. (g x)\<^sup>2)"
  using assms
proof (induction A rule: finite_induct)
  case empty
  then show ?case by simp
next
  case (insert x F)
  define a where "a = (\<Sum>x \<in> F. (f x)\<^sup>2)"
  define b where "b = (\<Sum>x \<in> F. (g x)\<^sup>2)"
  define c where "c = (\<Sum>x \<in> F. f x * g x)"
  have ab: "0 \<le> a" "0 \<le> b"
    by (simp_all add: a_def b_def sum_nonneg)
  have ih: "c\<^sup>2 \<le> a * b"
    using insert.IH by (simp add: a_def b_def c_def)
  have "(f x * g x + c)\<^sup>2 = c\<^sup>2 + 2 * c * (f x * g x) + (f x)\<^sup>2 * (g x)\<^sup>2"
    by (simp add: power2_eq_square algebra_simps)
  also have "\<dots> \<le> a * b + (a * (g x)\<^sup>2 + b * (f x)\<^sup>2) + (f x)\<^sup>2 * (g x)\<^sup>2"
    using ih two_products_le [OF ih ab, of "f x" "g x"] by simp
  also have "\<dots> = ((f x)\<^sup>2 + a) * ((g x)\<^sup>2 + b)"
    by (simp add: algebra_simps)
  finally show ?case
    using insert.hyps by (simp add: a_def b_def c_def)
qed

lemma cell_sum_product:
  "cell_sum n f = (\<Sum>p \<in> {0..n - 1} \<times> {0..n - 1}. f (fst p) (snd p))"
  by (simp add: cell_sum_def sum.cartesian_product case_prod_beta)

lemma cell_sum_squared_le:
  "(cell_sum n (\<lambda>i j. f i j * g i j))\<^sup>2
    \<le> cell_sum n (\<lambda>i j. (f i j)\<^sup>2) * cell_sum n (\<lambda>i j. (g i j)\<^sup>2)"
  unfolding cell_sum_product
  by (rule sum_product_squared_le) simp

lemma cell_sum_const: "0 < n \<Longrightarrow> cell_sum n (\<lambda>i j. c) = c * (real_of_int n)\<^sup>2"
  by (simp add: cell_sum_def power2_eq_square)

lemma cell_sum_affine:
  "0 < n \<Longrightarrow> cell_sum n (\<lambda>i j. 3 * f i j - c) = 3 * cell_sum n f - c * (real_of_int n)\<^sup>2"
  by (simp add: cell_sum_def sum_subtractf sum_distrib_left power2_eq_square)

lemma cell_sum_add: "cell_sum n (\<lambda>i j. f i j + g i j) = cell_sum n f + cell_sum n g"
  by (simp add: cell_sum_def sum.distrib)

lemma cell_sum_nonneg: "(\<And>i j. 0 \<le> f i j) \<Longrightarrow> 0 \<le> cell_sum n f"
  by (simp add: cell_sum_def sum_nonneg)

lemma cell_sum_cong:
  "(\<And>i j. 0 \<le> i \<Longrightarrow> i < n \<Longrightarrow> 0 \<le> j \<Longrightarrow> j < n \<Longrightarrow> f i j = g i j)
    \<Longrightarrow> cell_sum n f = cell_sum n g"
  unfolding cell_sum_def by (intro sum.cong refl) auto

section \<open>The entries of the order tensor\<close>

lemma Q_spec_sym: "Q_spec arr n a b = Q_spec arr n b a"
  by (simp add: Q_spec_def mult.commute mult.left_commute eq_commute [of a b])

lemma Q_spec_third:
  assumes "0 < n"
  shows "Q_spec arr n 2 0 = 0" "Q_spec arr n 2 1 = 0" "Q_spec arr n 0 2 = 0"
    "Q_spec arr n 1 2 = 0" "Q_spec arr n 2 2 = - 1 / 2"
  using assms by (simp_all add: Q_spec_def director_def cell_sum_const)

lemma Q_spec_expand:
  assumes "0 < n"
  shows "Q_spec arr n a b
    = (3 * cell_sum n (\<lambda>i j. director arr i j a * director arr i j b)
        - (if a = b then 1 else 0) * (real_of_int n)\<^sup>2) / (2 * (real_of_int n)\<^sup>2)"
proof -
  have "cell_sum n (\<lambda>i j. 3 * director arr i j a * director arr i j b - c)
      = 3 * cell_sum n (\<lambda>i j. director arr i j a * director arr i j b)
        - c * (real_of_int n)\<^sup>2" for c
    using cell_sum_affine [OF assms, of "\<lambda>i j. director arr i j a * director arr i j b" c]
    by (simp add: mult.assoc)
  then show ?thesis
    unfolding Q_spec_def by simp
qed

lemma Q_spec_block:
  fixes arr :: lattice and n :: int
  assumes "0 < n"
  defines "N \<equiv> (real_of_int n)\<^sup>2"
    and "Scc \<equiv> cell_sum n (\<lambda>i j. (cos (theta arr i j))\<^sup>2)"
    and "Sss \<equiv> cell_sum n (\<lambda>i j. (sin (theta arr i j))\<^sup>2)"
    and "Scs \<equiv> cell_sum n (\<lambda>i j. cos (theta arr i j) * sin (theta arr i j))"
  shows "Q_spec arr n 0 0 = (3 * Scc - N) / (2 * N)"
    and "Q_spec arr n 1 1 = (3 * Sss - N) / (2 * N)"
    and "Q_spec arr n 1 0 = 3 * Scs / (2 * N)"
    and "Scc + Sss = N" and "0 \<le> Scc" and "0 \<le> Sss" and "Scs\<^sup>2 \<le> Scc * Sss" and "0 < N"
proof -
  show "Q_spec arr n 0 0 = (3 * Scc - N) / (2 * N)"
    by (simp add: Q_spec_expand [OF assms(1)] director_def N_def Scc_def power2_eq_square)
  show "Q_spec arr n 1 1 = (3 * Sss - N) / (2 * N)"
    by (simp add: Q_spec_expand [OF assms(1)] director_def N_def Sss_def power2_eq_square)
  show "Q_spec arr n 1 0 = 3 * Scs / (2 * N)"
    by (simp add: Q_spec_expand [OF assms(1)] director_def N_def Scs_def mult.commute)
  have "Scc + Sss = cell_sum n (\<lambda>i j. 1)"
    unfolding Scc_def Sss_def cell_sum_add [symmetric] by (simp add: sin_cos_squared_add2)
  then show "Scc + Sss = N"
    using assms(1) by (simp add: cell_sum_const N_def)
  show "0 \<le> Scc" "0 \<le> Sss"
    unfolding Scc_def Sss_def by (simp_all add: cell_sum_nonneg)
  show "Scs\<^sup>2 \<le> Scc * Sss"
    unfolding Scc_def Sss_def Scs_def by (rule cell_sum_squared_le)
  show "0 < N"
    using assms(1) by (simp add: N_def)
qed

lemma Q_spec_facts:
  fixes arr :: lattice and n :: int
  assumes "0 < n"
  shows "Q_spec arr n 0 0 + Q_spec arr n 1 1 = 1 / 2"
    and "0 \<le> 1 - Q_spec arr n 0 0" and "0 \<le> 1 - Q_spec arr n 1 1"
    and "(Q_spec arr n 1 0)\<^sup>2 \<le> (1 - Q_spec arr n 0 0) * (1 - Q_spec arr n 1 1)"
proof -
  define N where "N = (real_of_int n)\<^sup>2"
  define Scc where "Scc = cell_sum n (\<lambda>i j. (cos (theta arr i j))\<^sup>2)"
  define Sss where "Sss = cell_sum n (\<lambda>i j. (sin (theta arr i j))\<^sup>2)"
  define Scs where "Scs = cell_sum n (\<lambda>i j. cos (theta arr i j) * sin (theta arr i j))"
  have b: "Q_spec arr n 0 0 = (3 * Scc - N) / (2 * N)"
    "Q_spec arr n 1 1 = (3 * Sss - N) / (2 * N)"
    "Q_spec arr n 1 0 = 3 * Scs / (2 * N)"
    "Scc + Sss = N" "0 \<le> Scc" "0 \<le> Sss" "Scs\<^sup>2 \<le> Scc * Sss" "0 < N"
    unfolding N_def Scc_def Sss_def Scs_def by (rule Q_spec_block [OF assms])+
  have ss: "Sss = N - Scc"
    using b(4) by simp
  have u: "1 - Q_spec arr n 0 0 = 3 * Sss / (2 * N)"
    unfolding b(1) ss using b(8) by (simp add: field_simps)
  have v: "1 - Q_spec arr n 1 1 = 3 * Scc / (2 * N)"
    unfolding b(2) ss using b(8) by (simp add: field_simps)
  show "Q_spec arr n 0 0 + Q_spec arr n 1 1 = 1 / 2"
    unfolding b(1,2) ss using b(8) by (simp add: field_simps)
  show "0 \<le> 1 - Q_spec arr n 0 0" "0 \<le> 1 - Q_spec arr n 1 1"
    using b(5,6,8) by (simp_all only: u v) simp_all
  have "(3 * Scs / (2 * N))\<^sup>2 = 9 * Scs\<^sup>2 / (4 * N\<^sup>2)"
    by (simp add: power_divide power_mult_distrib)
  also have "\<dots> \<le> 9 * (Scc * Sss) / (4 * N\<^sup>2)"
    using b(7,8) by (intro divide_right_mono mult_left_mono) simp_all
  also have "\<dots> = (3 * Sss / (2 * N)) * (3 * Scc / (2 * N))"
    by (simp add: power2_eq_square)
  finally show "(Q_spec arr n 1 0)\<^sup>2 \<le> (1 - Q_spec arr n 0 0) * (1 - Q_spec arr n 1 1)"
    by (simp only: u v b(3))
qed

section \<open>The largest eigenvalue\<close>

lemma ascending_spectrumE:
  assumes "ascending_spectrum Q es"
  obtains e0 e1 e2 where "es = [e0, e1, e2]" "e0 \<le> e1" "e1 \<le> e2"
    "e0 + e1 + e2 = trace3 Q" "e0 * e1 + e0 * e2 + e1 * e2 = minors3 Q" "e0 * e1 * e2 = det3 Q"
  using assms unfolding ascending_spectrum_def
  by (auto split: list.splits)

lemma largest_root:
  fixes e0 e1 e2 q00 q11 q10 :: real
  assumes "e0 \<le> e1" "e1 \<le> e2"
    and "e0 + e1 + e2 = q00 + q11 + - 1 / 2"
    and "e0 * e1 + e0 * e2 + e1 * e2
      = (q00 * q11 - q10 * q10) + (q00 * (- 1 / 2) - 0 * 0) + (q11 * (- 1 / 2) - 0 * 0)"
    and "e0 * e1 * e2
      = q00 * (q11 * (- 1 / 2) - 0 * 0) - q10 * (q10 * (- 1 / 2) - 0 * 0)
        + 0 * (q10 * 0 - q11 * 0)"
    and t: "q00 + q11 = 1 / 2"
  shows "0 \<le> e2" and "(e2 - q00) * (e2 - q11) = q10\<^sup>2"
proof -
  show p: "0 \<le> e2"
    using assms(1,2,3) t by linarith
  define m where "m = q00 * q11 - q10 * q10"
  have s1: "e0 + e1 + e2 = 0"
    using assms(3) t by simp
  have s2: "e0 * e1 + e0 * e2 + e1 * e2 = m - 1 / 4"
  proof -
    have "q00 * (- 1 / 2) + q11 * (- 1 / 2) = (q00 + q11) * (- 1 / 2)"
      by (simp add: algebra_simps)
    then show ?thesis
      using assms(4) t by (simp add: m_def)
  qed
  have s3: "e0 * e1 * e2 = - m / 2"
    using assms(5) by (simp add: m_def algebra_simps)
  have "(e2 - e0) * (e2 - e1) * (e2 - e2) = 0"
    by simp
  moreover have "(e2 - e0) * (e2 - e1) * (e2 - e2)
      = e2 ^ 3 - (e0 + e1 + e2) * e2\<^sup>2 + (e0 * e1 + e0 * e2 + e1 * e2) * e2 - e0 * e1 * e2"
    by (simp add: power2_eq_square power3_eq_cube algebra_simps)
  ultimately have "e2 ^ 3 + (m - 1 / 4) * e2 + m / 2 = 0"
    by (simp add: s1 s2 s3)
  moreover have "e2 ^ 3 + (m - 1 / 4) * e2 + m / 2 = (e2 + 1 / 2) * (e2\<^sup>2 - e2 / 2 + m)"
    by (simp add: power2_eq_square power3_eq_cube algebra_simps)
  ultimately have "(e2 + 1 / 2) * (e2\<^sup>2 - e2 / 2 + m) = 0"
    by simp
  moreover have "e2 + 1 / 2 \<noteq> 0"
    using p by simp
  ultimately have r: "e2\<^sup>2 - e2 / 2 + m = 0"
    by simp
  have "(e2 - q00) * (e2 - q11) = e2\<^sup>2 - e2 * (q00 + q11) + q00 * q11"
    by (simp add: power2_eq_square algebra_simps)
  also have "\<dots> = (e2\<^sup>2 - e2 / 2 + m) + q10\<^sup>2"
    by (simp add: t m_def power2_eq_square)
  finally show "(e2 - q00) * (e2 - q11) = q10\<^sup>2"
    using r by simp
qed

lemma largest_root_le_one:
  fixes e2 q00 q11 q10 :: real
  assumes "(e2 - q00) * (e2 - q11) = q10\<^sup>2"
    and "0 \<le> 1 - q00" "0 \<le> 1 - q11" "q10\<^sup>2 \<le> (1 - q00) * (1 - q11)"
  shows "e2 \<le> 1"
proof (rule ccontr)
  assume "\<not> e2 \<le> 1"
  then have e: "0 < e2 - 1" by simp
  have "(e2 - q00) * (e2 - q11)
      = (1 - q00) * (1 - q11) + (e2 - 1) * ((1 - q00) + (1 - q11)) + (e2 - 1)\<^sup>2"
    by (simp add: power2_eq_square algebra_simps)
  moreover have "0 \<le> (e2 - 1) * ((1 - q00) + (1 - q11))"
    using e assms(2,3) by (intro mult_nonneg_nonneg) simp_all
  moreover have "0 < (e2 - 1)\<^sup>2"
    using e by simp
  ultimately have "(1 - q00) * (1 - q11) < (e2 - q00) * (e2 - q11)"
    by linarith
  then show False
    using assms(1,4) by linarith
qed

lemma largest_root_eq_one:
  fixes e2 q00 q11 q10 :: real
  assumes "(e2 - q00) * (e2 - q11) = q10\<^sup>2" "0 \<le> e2" "q00 + q11 = 1 / 2"
    and "q10\<^sup>2 = (1 - q00) * (1 - q11)"
  shows "e2 = 1"
proof -
  have q: "q11 = 1 / 2 - q00"
    using assms(3) by simp
  have "(e2 - 1) * (e2 + 1 / 2) = (e2 - q00) * (e2 - q11) - (1 - q00) * (1 - q11)"
    unfolding q by (simp add: field_simps)
  also have "\<dots> = 0"
    using assms(1,4) by simp
  finally have "e2 - 1 = 0 \<or> e2 + 1 / 2 = 0"
    by (simp only: mult_eq_0_iff)
  then show ?thesis
    using assms(2) by linarith
qed

lemma Q_spec_aligned:
  assumes "0 < n" "shape arr n" "aligned arr"
  shows "(Q_spec arr n 1 0)\<^sup>2 = (1 - Q_spec arr n 0 0) * (1 - Q_spec arr n 1 1)"
proof -
  obtain t where t: "\<And>i j. 0 \<le> i \<Longrightarrow> i < n \<Longrightarrow> 0 \<le> j \<Longrightarrow> j < n \<Longrightarrow> theta arr i j = t"
    using aligned_theta [OF assms(3,2)] by blast
  define N where "N = (real_of_int n)\<^sup>2"
  have N: "0 < N" using assms(1) by (simp add: N_def)
  define d where "d a = (if a = 0 then cos t else if a = 1 then sin t else 0)" for a :: nat
  have "cell_sum n (\<lambda>i j. director arr i j a * director arr i j b)
      = cell_sum n (\<lambda>i j. d a * d b)" for a b
    by (rule cell_sum_cong) (simp add: director_def t d_def)
  then have q: "Q_spec arr n a b
      = (3 * (d a * d b * N) - (if a = b then 1 else 0) * N) / (2 * N)" for a b
    using assms(1) by (simp add: Q_spec_expand cell_sum_const N_def)
  have q00: "Q_spec arr n 0 0 = (3 * (cos t)\<^sup>2 - 1) / 2"
    unfolding q using N by (simp add: d_def power2_eq_square field_simps)
  have q11: "Q_spec arr n 1 1 = (3 * (sin t)\<^sup>2 - 1) / 2"
    unfolding q using N by (simp add: d_def power2_eq_square field_simps)
  have q10: "Q_spec arr n 1 0 = 3 * (sin t * cos t) / 2"
    unfolding q using N by (simp add: d_def field_simps)
  have c: "(cos t)\<^sup>2 = 1 - (sin t)\<^sup>2"
    by (simp add: cos_squared_eq)
  have "(3 * (sin t * cos t) / 2)\<^sup>2 = 9 * (sin t)\<^sup>2 * (cos t)\<^sup>2 / 4"
    by (simp add: power_mult_distrib power_divide)
  also have "\<dots> = (1 - (3 * (cos t)\<^sup>2 - 1) / 2) * (1 - (3 * (sin t)\<^sup>2 - 1) / 2)"
    unfolding c by (simp add: field_simps)
  finally show ?thesis
    unfolding q00 q11 q10 .
qed

lemma get_order_spectrum:
  assumes "0 < n" "2 * n * n < 2 ^ 31" "shape arr n" "solver_ok eigvalsh arr n"
  obtains Q e0 e1 e2 where "order_tensor arr n = Inr Q"
    and "\<And>a b. a < 3 \<Longrightarrow> b < 3 \<Longrightarrow> Q (a, b) = Q_spec arr n a b"
    and "eigvalsh Q = [e0, e1, e2]" and "e0 \<le> e1" and "e1 \<le> e2"
    and "get_order eigvalsh arr n = Inr e2"
    and "0 \<le> e2" and "e2 \<le> 1" and "aligned arr \<Longrightarrow> e2 = 1"
proof -
  obtain Q where Q: "order_tensor arr n = Inr Q"
    and e: "\<And>a b. a < 3 \<Longrightarrow> b < 3 \<Longrightarrow> Q (a, b) = Q_spec arr n a b"
    using order_tensor_entries [OF assms(1-3)] by blast
  have "ascending_spectrum Q (eigvalsh Q)"
    using assms(4) by (simp add: solver_ok_def Q)
  then obtain e0 e1 e2 where es: "eigvalsh Q = [e0, e1, e2]" "e0 \<le> e1" "e1 \<le> e2"
    and v: "e0 + e1 + e2 = trace3 Q" "e0 * e1 + e0 * e2 + e1 * e2 = minors3 Q"
      "e0 * e1 * e2 = det3 Q"
    by (rule ascending_spectrumE)
  have q: "Q (0, 0) = Q_spec arr n 0 0" "Q (1, 1) = Q_spec arr n 1 1"
    "Q (1, 0) = Q_spec arr n 1 0" "Q (2, 0) = 0" "Q (2, 1) = 0" "Q (2, 2) = - 1 / 2"
    using Q_spec_third [OF assms(1), of arr] by (simp_all add: e)
  note f = Q_spec_facts [OF assms(1), of arr]
  note r = largest_root [OF es(2,3) v [unfolded trace3_def minors3_def det3_def q] f(1)]
  have le: "e2 \<le> 1"
    by (rule largest_root_le_one [OF r(2) f(2,3,4)])
  have one: "e2 = 1" if "aligned arr"
    by (rule largest_root_eq_one [OF r(2) r(1) f(1) Q_spec_aligned [OF assms(1,3) that]])
  have g: "get_order eigvalsh arr n = Inr e2"
    by (simp add: get_order_def Q bind_err_Inr es(1) idx_def)
  show ?thesis
    using that [OF Q e es g r(1) le one] by blast
qed

lemma solver_okI:
  assumes "0 < n" "2 * n * n < 2 ^ 31" "shape arr n"
    and "\<And>Q. (\<And>a b. a < 3 \<Longrightarrow> b < 3 \<Longrightarrow> Q (a, b) = Q_spec arr n a b)
      \<Longrightarrow> ascending_spectrum Q (ev Q)"
  shows "solver_ok ev arr n"
proof -
  obtain Q where Q: "order_tensor arr n = Inr Q"
    and e: "\<And>a b. a < 3 \<Longrightarrow> b < 3 \<Longrightarrow> Q (a, b) = Q_spec arr n a b"
    using order_tensor_entries [OF assms(1-3)] by blast
  show ?thesis
    using assms(4) [OF e] by (simp add: solver_ok_def Q)
qed

lemma cell_sum_two: "cell_sum 2 f = f 0 0 + f 0 1 + f 1 0 + f 1 1"
proof -
  have "{0..1::int} = {0, 1}" by auto
  then show ?thesis by (simp add: cell_sum_def)
qed


lemma solver_ok_aligned:
  "solver_ok (\<lambda>_. [- 1 / 2, - 1 / 2, 1]) [[0, 0], [0, 0]] 2"
proof (rule solver_okI)
  fix Q :: tensor
  assume e: "\<And>a b. a < 3 \<Longrightarrow> b < 3 \<Longrightarrow> Q (a, b) = Q_spec [[0, 0], [0, 0]] 2 a b"
  have q: "Q (0, 0) = 1" "Q (1, 1) = - 1 / 2" "Q (1, 0) = 0"
    "Q (2, 0) = 0" "Q (2, 1) = 0" "Q (2, 2) = - 1 / 2"
    by (simp_all add: e Q_spec_def cell_sum_two director_def theta_def)
  show "ascending_spectrum Q [- 1 / 2, - 1 / 2, 1]"
    unfolding ascending_spectrum_def trace3_def minors3_def det3_def q by simp
qed (simp_all add: shape_def)


section \<open>Running a sweep\<close>

lemmas eval_defs = py_range_def attempt_def loop_else_def one_energy_def
  wrap_index_def c_int_def py_mod_def get_at_def set_at_def idx_def bind_err_def Let_def

lemma upto_0_1: "[0..1::int] = [0, 1]"
  by (simp add: upto_rec1)

lemma boltzmann_below_half: "exp (- (2 - (- 4)) / (0.9::real)) < 1 / 2"
proof -
  have "1 + (20 / 3 :: real) \<le> exp (20 / 3)"
    by (rule exp_ge_add_one_self)
  then have "2 < exp (20 / 3 :: real)"
    by simp
  then have "inverse (exp (20 / 3 :: real)) < inverse 2"
    by (intro less_imp_inverse_less) simp_all
  moreover have "- (2 - (- 4)) / (0.9::real) = - (20 / 3)"
    by simp
  ultimately show ?thesis
    by (simp add: exp_minus)
qed

section \<open>The claims\<close>

text \<open>
  Claim C3. For every cell \<open>(ix, iy)\<close> of an \<open>nmax\<close> by \<open>nmax\<close> lattice,
  \<^verbatim>\<open>one_energy\<close> returns (it raises nothing) the sum, over the four periodic
  neighbours of the cell, of \<open>0.5 * (1 - 3 * cos\<^sup>2 (\<theta>(ix, iy) - \<theta>(ip, jp)))\<close>.
\<close>

theorem one_energy_is_cellEnergy:
  assumes "0 < nmax" "nmax < 2 ^ 31" "shape arr nmax"
    and "0 \<le> ix" "ix < nmax" "0 \<le> iy" "iy < nmax"
  shows "one_energy arr ix iy nmax
    = Inr (\<Sum>(ip, jp) \<leftarrow> neighbors ix iy nmax.
             0.5 * (1 - 3 * cos (theta arr ix iy - theta arr ip jp) ^ 2))"
  using one_energy_valid [OF assms] by (simp add: cellEnergy_def)

theorem one_energy_is_cellEnergy_witness:
  "one_energy [[0, pi / 2], [pi, 0]] 0 0 2 = Inr (- 1)"
  using one_energy_is_cellEnergy [of 2 "[[0, pi / 2], [pi, 0]]" 0 0]
  by (simp add: shape_def neighbors_def theta_def)

text \<open>
  Claim C4. On an \<open>nmax\<close> by \<open>nmax\<close> lattice \<^verbatim>\<open>all_energy\<close> returns the sum of the
  cell energies over every cell, each bond being counted from both of its ends and
  nothing halved; on a lattice whose angles are all equal this is \<open>- 4 * nmax\<^sup>2\<close>,
  which is \<open>- 64\<close> for \<open>nmax = 4\<close>.
\<close>

theorem all_energy_sum_of_cells:
  assumes "0 < nmax" "nmax < 2 ^ 31" "shape arr nmax"
  shows "all_energy arr nmax = Inr (\<Sum>i \<in> {0..nmax - 1}. \<Sum>j \<in> {0..nmax - 1}. cellEnergy arr i j nmax)
    \<and> (aligned arr \<longrightarrow> all_energy arr nmax = Inr (- 4 * (real_of_int nmax) ^ 2))"
  using all_energy_valid [OF assms] latticeEnergy_aligned [of arr nmax] assms
  by (simp add: latticeEnergy_def)

theorem all_energy_sum_of_cells_witness:
  "all_energy [[0, 0, 0, 0], [0, 0, 0, 0], [0, 0, 0, 0], [0, 0, 0, 0]] 4 = Inr (- 64)"
  using all_energy_sum_of_cells [of 4 "[[0, 0, 0, 0], [0, 0, 0, 0], [0, 0, 0, 0], [0, 0, 0, 0]]", THEN conjunct2]
  by (simp add: shape_def aligned_def)

text \<open>
  Claim C7. For every cell \<open>(ix, iy)\<close> with \<open>0 \<le> ix, iy < nmax\<close>, \<^verbatim>\<open>one_energy\<close> reads
  its four neighbours at the mathematical remainders of \<open>ix \<plusminus> 1\<close> and \<open>iy \<plusminus> 1\<close> modulo
  \<open>nmax\<close>: these lie in \<open>[0, nmax)\<close>, also for the negative operand met at index 0, where
  the remainder is \<open>nmax - 1\<close>, and each read finds an entry. The array may be larger than
  \<open>nmax\<close> by \<open>nmax\<close>, so the remainder by \<open>nmax\<close> is told apart from an index that
  counts from the end of the array.
\<close>

theorem one_energy_neighbor_indices:
  assumes "0 < nmax" "nmax < 2 ^ 31" "covers arr nmax"
    and "0 \<le> ix" "ix < nmax" "0 \<le> iy" "iy < nmax"
  shows "one_energy arr ix iy nmax
      = Inr (0.5 * (1 - 3 * cos (theta arr ix iy - theta arr ((ix + 1) mod nmax) iy) ^ 2)
           + 0.5 * (1 - 3 * cos (theta arr ix iy - theta arr ((ix - 1) mod nmax) iy) ^ 2)
           + 0.5 * (1 - 3 * cos (theta arr ix iy - theta arr ix ((iy + 1) mod nmax)) ^ 2)
           + 0.5 * (1 - 3 * cos (theta arr ix iy - theta arr ix ((iy - 1) mod nmax)) ^ 2))
    \<and> 0 \<le> (ix + 1) mod nmax \<and> (ix + 1) mod nmax < nmax
    \<and> 0 \<le> (ix - 1) mod nmax \<and> (ix - 1) mod nmax < nmax
    \<and> 0 \<le> (iy + 1) mod nmax \<and> (iy + 1) mod nmax < nmax
    \<and> 0 \<le> (iy - 1) mod nmax \<and> (iy - 1) mod nmax < nmax
    \<and> (ix = 0 \<longrightarrow> (ix - 1) mod nmax = nmax - 1)
    \<and> (iy = 0 \<longrightarrow> (iy - 1) mod nmax = nmax - 1)
    \<and> get_at arr ((ix + 1) mod nmax) iy = Inr (theta arr ((ix + 1) mod nmax) iy)
    \<and> get_at arr ((ix - 1) mod nmax) iy = Inr (theta arr ((ix - 1) mod nmax) iy)
    \<and> get_at arr ix ((iy + 1) mod nmax) = Inr (theta arr ix ((iy + 1) mod nmax))
    \<and> get_at arr ix ((iy - 1) mod nmax) = Inr (theta arr ix ((iy - 1) mod nmax))"
proof -
  have r: "0 \<le> k mod nmax" "k mod nmax < nmax" for k
    using assms(1) by simp_all
  have m: "(- 1) mod nmax = nmax - 1"
    using assms(1) by (simp add: zmod_minus1)
  have g: "get_at arr ((ix + 1) mod nmax) iy = Inr (theta arr ((ix + 1) mod nmax) iy)"
    "get_at arr ((ix - 1) mod nmax) iy = Inr (theta arr ((ix - 1) mod nmax) iy)"
    "get_at arr ix ((iy + 1) mod nmax) = Inr (theta arr ix ((iy + 1) mod nmax))"
    "get_at arr ix ((iy - 1) mod nmax) = Inr (theta arr ix ((iy - 1) mod nmax))"
    using assms r by (simp_all add: get_at_covered)
  have e: "one_energy arr ix iy nmax
      = Inr (0.5 * (1 - 3 * cos (theta arr ix iy - theta arr ((ix + 1) mod nmax) iy) ^ 2)
           + 0.5 * (1 - 3 * cos (theta arr ix iy - theta arr ((ix - 1) mod nmax) iy) ^ 2)
           + 0.5 * (1 - 3 * cos (theta arr ix iy - theta arr ix ((iy + 1) mod nmax)) ^ 2)
           + 0.5 * (1 - 3 * cos (theta arr ix iy - theta arr ix ((iy - 1) mod nmax)) ^ 2))"
    using one_energy_covered [OF assms] by (simp add: cellEnergy_def neighbors_def)
  show ?thesis
    using r g m e by simp
qed

theorem one_energy_neighbor_indices_witness:
  "one_energy [[0, 0, 0, 0], [0, 0, 0, 0], [pi / 2, 0, 0, 0], [0, 0, 0, 0]] 0 0 3 = Inr (- 5 / 2)
   \<and> one_energy [[0, 0, 0, 0], [0, 0, 0, 0], [0, 0, 0, 0], [pi / 2, 0, 0, 0]] 0 0 3 = Inr (- 4)"
proof -
  have a: "one_energy [[0, 0, 0, 0], [0, 0, 0, 0], [pi / 2, 0, 0, 0], [0, 0, 0, 0]] 0 0 3 = Inr (- 5 / 2)"
    using one_energy_neighbor_indices
      [of 3 "[[0, 0, 0, 0], [0, 0, 0, 0], [pi / 2, 0, 0, 0], [0, 0, 0, 0]]" 0 0, THEN conjunct1]
    by (simp add: covers_def theta_def)
  have b: "one_energy [[0, 0, 0, 0], [0, 0, 0, 0], [0, 0, 0, 0], [pi / 2, 0, 0, 0]] 0 0 3 = Inr (- 4)"
    using one_energy_neighbor_indices
      [of 3 "[[0, 0, 0, 0], [0, 0, 0, 0], [0, 0, 0, 0], [pi / 2, 0, 0, 0]]" 0 0, THEN conjunct1]
    by (simp add: covers_def theta_def)
  from a b show ?thesis by (rule conjI)
qed

text \<open>
  Claim C10. The lattice that \<^verbatim>\<open>initdat\<close> returns depends on the size and on the
  uniform draws only: two calls with the same size and the same stream of draws return
  the same result whatever their temperatures, and for a size that is not negative
  every angle of the lattice is the corresponding draw times \<open>2\<pi>\<close>.
\<close>

theorem initdat_ignores_temperature:
  "initdat rs nmax Ts = initdat rs nmax Ts'
   \<and> (0 \<le> nmax \<longrightarrow>
        initdat rs nmax Ts
        = Inr (map (\<lambda>i. map (\<lambda>j. rs (i * nat nmax + j) * 2 * pi) [0..<nat nmax])
                 [0..<nat nmax]))"
  by (simp add: initdat_def random_sample_def bind_err_def comp_def)

theorem initdat_ignores_temperature_witness:
  "initdat (\<lambda>k. real k / 4) 2 0.5 = initdat (\<lambda>k. real k / 4) 2 1.5
   \<and> initdat (\<lambda>k. real k / 4) 2 0.5 = Inr [[0, pi / 2], [pi, 3 * pi / 2]]"
proof -
  note t = initdat_ignores_temperature [of "\<lambda>k. real k / 4" 2 "0.5" "1.5"]
  have a: "initdat (\<lambda>k. real k / 4) 2 0.5 = initdat (\<lambda>k. real k / 4) 2 1.5"
    using t by (rule conjunct1)
  have b: "initdat (\<lambda>k. real k / 4) 2 0.5 = Inr [[0, pi / 2], [pi, 3 * pi / 2]]"
    using t [THEN conjunct2] by (simp add: upt_rec)
  from a b show ?thesis by (rule conjI)
qed

text \<open>
  Claim C9. For every cell \<open>(ix, iy)\<close> of the lattice, \<^verbatim>\<open>one_energy\<close> returns the same
  value after \<open>2\<pi>\<close> is added to the angle of any single cell \<open>(k, l)\<close>, and the
  same value after every angle of the lattice is negated.
\<close>

theorem one_energy_symmetries:
  assumes "0 < nmax" "nmax < 2 ^ 31" "shape arr nmax"
    and "0 \<le> ix" "ix < nmax" "0 \<le> iy" "iy < nmax"
    and "0 \<le> k" "k < nmax" "0 \<le> l" "l < nmax"
  shows "one_energy (shift_angle arr k l (2 * pi)) ix iy nmax = one_energy arr ix iy nmax
    \<and> one_energy (negate_angles arr) ix iy nmax = one_energy arr ix iy nmax"
  using assms
  by (simp add: one_energy_valid shape_shift_angle shape_negate_angles
      cellEnergy_shift_angle cellEnergy_negate_angles)

theorem one_energy_symmetries_witness:
  "one_energy [[0, pi / 2 + 2 * pi], [pi, 0]] 0 0 2 = one_energy [[0, pi / 2], [pi, 0]] 0 0 2
   \<and> one_energy [[- 0, - (pi / 2)], [- pi, - 0]] 0 0 2 = one_energy [[0, pi / 2], [pi, 0]] 0 0 2"
  using one_energy_symmetries [of 2 "[[0, pi / 2], [pi, 0]]" 0 0 0 1]
  by (simp add: shape_def shift_angle_def negate_angles_def theta_def)




text \<open>
  Claim C6, as the source has it. On an \<open>nmax\<close> by \<open>nmax\<close> lattice the matrix that
  \<^verbatim>\<open>get_order\<close> builds is symmetric and traceless, and the entries of its third row
  and third column away from the diagonal are zero; the diagonal entry \<open>Qab[2, 2]\<close> is
  \<open>- 1 / 2\<close>, not zero, for every lattice.
\<close>

theorem order_tensor_symmetric_traceless:
  assumes "0 < nmax" "2 * nmax * nmax < 2 ^ 31" "shape arr nmax"
  shows "\<exists>Qab. order_tensor arr nmax = Inr Qab
    \<and> (\<forall>a<3. \<forall>b<3. Qab (a, b) = Qab (b, a))
    \<and> Qab (0, 0) + Qab (1, 1) + Qab (2, 2) = 0
    \<and> Qab (2, 0) = 0 \<and> Qab (2, 1) = 0 \<and> Qab (0, 2) = 0 \<and> Qab (1, 2) = 0
    \<and> Qab (2, 2) = - 1 / 2"
proof -
  obtain Q where Q: "order_tensor arr nmax = Inr Q"
    and e: "\<And>a b. a < 3 \<Longrightarrow> b < 3 \<Longrightarrow> Q (a, b) = Q_spec arr nmax a b"
    using order_tensor_entries [OF assms] by blast
  have "Q (a, b) = Q (b, a)" if "a < 3" "b < 3" for a b
    using that by (simp add: e Q_spec_sym [of arr nmax a b])
  moreover have "Q (0, 0) + Q (1, 1) + Q (2, 2) = 0"
    using Q_spec_facts(1) [OF assms(1), of arr] Q_spec_third(5) [OF assms(1), of arr]
    by (simp add: e)
  moreover have "Q (2, 0) = 0" "Q (2, 1) = 0" "Q (0, 2) = 0" "Q (1, 2) = 0" "Q (2, 2) = - 1 / 2"
    using Q_spec_third [OF assms(1), of arr] by (simp_all add: e)
  ultimately show ?thesis
    using Q by blast
qed

theorem order_tensor_symmetric_traceless_witness:
  "\<exists>Qab. order_tensor [[0, pi / 2], [pi / 2, 0]] 2 = Inr Qab
    \<and> (\<forall>a<3. \<forall>b<3. Qab (a, b) = Qab (b, a))
    \<and> Qab (0, 0) + Qab (1, 1) + Qab (2, 2) = 0
    \<and> Qab (2, 0) = 0 \<and> Qab (2, 1) = 0 \<and> Qab (0, 2) = 0 \<and> Qab (1, 2) = 0
    \<and> Qab (2, 2) = - 1 / 2"
  by (rule order_tensor_symmetric_traceless) (simp_all add: shape_def)

theorem third_diagonal_entry_counterexample:
  "Qab_entry [[0]] 1 2 2 = Inr (- 1 / 2) \<and> Qab_entry [[0]] 1 2 2 \<noteq> Inr 0"
proof -
  obtain Q where Q: "order_tensor [[0]] 1 = Inr Q"
    and e: "\<And>a b. a < 3 \<Longrightarrow> b < 3 \<Longrightarrow> Q (a, b) = Q_spec [[0]] 1 a b"
    using order_tensor_entries [of 1 "[[0]]"] by (auto simp: shape_def)
  have "Q (2, 2) = - 1 / 2"
    using Q_spec_third(5) [of 1 "[[0]]"] by (simp add: e)
  then show ?thesis
    by (simp add: Qab_entry_def Q bind_err_Inr)
qed

text \<open>
  Claim C8. On an \<open>nmax\<close> by \<open>nmax\<close> lattice the order parameter that \<^verbatim>\<open>get_order\<close>
  returns is at least 0 and at most 1, and it is 1 when all angles of the lattice are
  equal.
\<close>

theorem get_order_in_unit_interval:
  assumes "0 < nmax" "2 * nmax * nmax < 2 ^ 31" "shape arr nmax"
    and "solver_ok eigvalsh arr nmax"
  shows "\<exists>S. get_order eigvalsh arr nmax = Inr S \<and> 0 \<le> S \<and> S \<le> 1
    \<and> (aligned arr \<longrightarrow> S = 1)"
proof -
  obtain e2 where "get_order eigvalsh arr nmax = Inr e2" "0 \<le> e2" "e2 \<le> 1"
    "aligned arr \<Longrightarrow> e2 = 1"
    using get_order_spectrum [OF assms] by metis
  then show ?thesis by blast
qed

theorem get_order_in_unit_interval_witness:
  "get_order (\<lambda>_. [- 1 / 2, - 1 / 2, 1]) [[0, 0], [0, 0]] 2 = Inr 1"
  using get_order_in_unit_interval [of 2 "[[0, 0], [0, 0]]" "\<lambda>_. [- 1 / 2, - 1 / 2, 1]"]
    solver_ok_aligned
  by (auto simp: shape_def aligned_def)

text \<open>
  Claim C1, evaluated on the source. A sweep over the 2 by 2 lattice of zero angles at
  \<open>Ts = 0.9\<close> whose first attempt turns the cell \<open>(0, 0)\<close> by \<open>\<pi> / 2\<close>: the energy
  of that cell rises from \<open>- 4\<close> to \<open>2\<close>, its Boltzmann factor is below the uniform
  draw \<open>1 / 2\<close>, and yet the sweep ends with the cell still turned. The attempt got no
  acceptance test, because the test of the source runs once after each inner loop and
  only on the last attempt of that loop.
\<close>

theorem MC_step_uphill_kept:
  "MC_step [[0, 0], [0, 0]] 0.9 2 uphill_draws = Inr ([[pi / 2, 0], [0, 0]], 5 / 4)
   \<and> one_energy [[0, 0], [0, 0]] 0 0 2 = Inr (- 4)
   \<and> one_energy [[pi / 2, 0], [0, 0]] 0 0 2 = Inr 2
   \<and> exp (- (2 - (- 4)) / 0.9) < uniform uphill_draws 0"
proof -
  have "MC_step [[0, 0], [0, 0]] 0.9 2 uphill_draws = Inr ([[pi / 2, 0], [0, 0]], 5 / 4)"
    by (simp add: MC_step_def uphill_draws_def eval_defs upto_0_1)
  moreover have "one_energy [[0, 0], [0, 0]] 0 0 2 = Inr (- 4)"
    "one_energy [[pi / 2, 0], [0, 0]] 0 0 2 = Inr 2"
    by (simp_all add: eval_defs)
  moreover have "exp (- (2 - (- 4)) / 0.9) < uniform uphill_draws 0"
    using boltzmann_below_half by (simp add: uphill_draws_def)
  ultimately show ?thesis by simp
qed

text \<open>
  Claim C2, evaluated on the source. A sweep over the lattice of a single cell makes one
  attempt and returns the ratio 2: the attempt is counted by the comparison of the
  energies inside the loop and once more by the Boltzmann test after the loop.
\<close>

theorem MC_step_single_cell:
  "MC_step [[0]] 1 1 single_cell_draws = Inr ([[11 / 10]], 2)"
  by (simp add: MC_step_def single_cell_draws_def eval_defs)

end
